theory Spec2Isabelle
  imports Main "HOL-Library.Multiset"
begin

section \<open>JavaScript values used by the tool\<close>

subsection \<open>Strings\<close>

text \<open>
  A JavaScript string is a \<^typ>\<open>string\<close>. Only the string methods the sources call are
  modelled, each under its own name.
\<close>

definition startsWith :: "string \<Rightarrow> string \<Rightarrow> bool" where
  "startsWith s p = (take (length p) s = p)"

definition endsWith :: "string \<Rightarrow> string \<Rightarrow> bool" where
  "endsWith s p = (length p \<le> length s \<and> drop (length s - length p) s = p)"

text \<open>
  \<^verbatim>\<open>s.split(sep)\<close> for a one-character separator: the pieces between the separators,
  never an empty array (\<^verbatim>\<open>"".split("/")\<close> is \<^verbatim>\<open>[""]\<close>).
\<close>

fun str_split :: "string \<Rightarrow> char \<Rightarrow> string list" where
  "str_split [] sep = [[]]"
| "str_split (c # cs) sep =
     (if c = sep then [] # str_split cs sep
      else (case str_split cs sep of
              [] \<Rightarrow> [[c]]
            | p # ps \<Rightarrow> (c # p) # ps))"

text \<open>
  \<^verbatim>\<open>s.replace(pat, rep)\<close> with a one-character string pattern: only the first
  occurrence is replaced.
\<close>

fun str_replace :: "string \<Rightarrow> char \<Rightarrow> string \<Rightarrow> string" where
  "str_replace [] pat rep = []"
| "str_replace (c # cs) pat rep =
     (if c = pat then rep @ cs else c # str_replace cs pat rep)"

text \<open>
  \<^verbatim>\<open>path.isAbsolute\<close> of Node's POSIX \<^verbatim>\<open>path\<close> module: a non-empty path whose first
  character is the slash. (The variant for Windows, which also accepts a backslash or a
  drive letter, is not modelled.)
\<close>

definition isAbsolute :: "string \<Rightarrow> bool" where
  "isAbsolute p = (case p of [] \<Rightarrow> False | c # _ \<Rightarrow> c = CHR ''/'')"

subsection \<open>Sets of strings\<close>

text \<open>
  A \<^verbatim>\<open>Set<string>\<close> keeps its members in insertion order, without duplicates: a list
  that \<open>set_add\<close> extends at the end.
\<close>

type_synonym js_set = "string list"

definition set_has :: "js_set \<Rightarrow> string \<Rightarrow> bool" where
  "set_has s x = (x \<in> set s)"

definition set_add :: "js_set \<Rightarrow> string \<Rightarrow> js_set" where
  "set_add s x = (if set_has s x then s else s @ [x])"

definition new_Set :: "string list \<Rightarrow> js_set" where
  "new_Set xs = fold (\<lambda>x s. set_add s x) xs []"

subsection \<open>Objects with string values\<close>

text \<open>
  A manifest section is a JavaScript object from dependency names to version ranges: an
  association list that holds each key once, in the order in which the properties were
  created (for an object that \<^verbatim>\<open>JSON.parse\<close> returns, the order of the manifest's text).
  Assigning an existing key keeps its position; a new key goes to the end.
\<close>

type_synonym js_object = "(string \<times> string) list"

fun obj_set :: "js_object \<Rightarrow> string \<Rightarrow> string \<Rightarrow> js_object" where
  "obj_set [] k v = [(k, v)]"
| "obj_set ((k', v') # kvs) k v =
     (if k' = k then (k, v) # kvs else (k', v') # obj_set kvs k v)"

text \<open>
  JavaScript does not enumerate the own property keys in the order of creation alone. The
  keys that are array indices (the canonical decimal numerals from \<^verbatim>\<open>0\<close> to
  \<^verbatim>\<open>4294967294\<close>, such as \<^verbatim>\<open>7\<close> or \<^verbatim>\<open>101\<close>) come first, in ascending numeric order; the
  other keys follow in the order of their creation. \<^verbatim>\<open>Object.keys\<close> and the spread
  both enumerate in this order.
\<close>

definition digitValue :: "char \<Rightarrow> int" where
  "digitValue c = int (length (takeWhile (\<lambda>d. d \<noteq> c) ''0123456789''))"

definition indexValue :: "string \<Rightarrow> int" where
  "indexValue s = fold (\<lambda>c n. 10 * n + digitValue c) s 0"

definition isArrayIndex :: "string \<Rightarrow> bool" where
  "isArrayIndex s =
     (s \<noteq> [] \<and> list_all (\<lambda>c. c \<in> set ''0123456789'') s \<and>
      (s = ''0'' \<or> hd s \<noteq> CHR ''0'') \<and> indexValue s < 4294967295)"

definition ownPropertyKeys :: "string list \<Rightarrow> string list" where
  "ownPropertyKeys ks =
     sort_key indexValue (filter isArrayIndex ks) @ filter (\<lambda>k. \<not> isArrayIndex k) ks"

definition Object_keys :: "js_object \<Rightarrow> string list" where
  "Object_keys obj = ownPropertyKeys (map fst obj)"

text \<open>
  The spread \<^verbatim>\<open>{ ...target, ...src }\<close>: for each own key of \<open>src\<close>, in the order of
  enumeration, the value of \<open>src\<close> is assigned to \<open>target\<close>; spreading \<^verbatim>\<open>undefined\<close>
  assigns nothing.
\<close>

definition spread :: "js_object \<Rightarrow> js_object option \<Rightarrow> js_object" where
  "spread target src =
     (case src of
        None \<Rightarrow> target
      | Some kvs \<Rightarrow>
          fold (\<lambda>k obj. case map_of kvs k of None \<Rightarrow> obj | Some v \<Rightarrow> obj_set obj k v)
            (Object_keys kvs) target)"

section \<open>The project on disk\<close>

text \<open>
  \<^verbatim>\<open>package.json\<close> as \<^verbatim>\<open>fs.readJSON\<close> returns it. Only the four dependency sections are
  read or written by the tool; a section that the manifest does not have is \<open>None\<close>.
\<close>

record package_json =
  dependencies :: "js_object option"
  devDependencies :: "js_object option"
  peerDependencies :: "js_object option"
  optionalDependencies :: "js_object option"

datatype manifest_file =
    Absent
  | Unreadable string
  | Manifest package_json

text \<open>
  What \<^verbatim>\<open>@babel/traverse\<close> hands to the four visitors of \<^verbatim>\<open>findUsedDependencies\<close>, in
  the order of the traversal. A callee is the identifier with its name, the \<^verbatim>\<open>Import\<close>
  node of a dynamic import, or anything else; an argument is a string literal or
  anything else.
\<close>

datatype callee = Identifier string | Import | OtherCallee

datatype argument = StringLiteral string | OtherArgument

datatype node =
    ImportDeclaration string
  | CallExpression callee "argument list"
  | ExportNamedDeclaration "string option"
  | ExportAllDeclaration "string option"

text \<open>
  The body of the \<^verbatim>\<open>try\<close> block for one file: \<^verbatim>\<open>fs.readFile\<close>, \<^verbatim>\<open>parse\<close> or the scope
  analysis that \<^verbatim>\<open>traverse\<close> runs before the first visitor throws an error with a
  message, or the visitors see the nodes of the file.
\<close>

datatype source_file = Throws string | Parsed "node list"

text \<open>
  A project is what the tool finds under its root directory: the manifest, the paths that
  the glob of \<^verbatim>\<open>getSourceFiles\<close> returns, and for each path what reading and parsing the
  file gives. The root directory itself does not appear in the model.
\<close>

record project =
  manifest :: manifest_file
  globResult :: "string list"
  readAndParse :: "string \<Rightarrow> source_file"

section \<open>analyzer.ts\<close>

datatype error = ManifestNotFound | ReadJSONFailed string

fun message :: "error \<Rightarrow> string" where
  "message ManifestNotFound = ''package.json not found''"
| "message (ReadJSONFailed m) = m"

text \<open>
  The calls of the logger, one constructor for each call site with the values it
  interpolates: \<^verbatim>\<open>logger.debug(`Scanning file: ...`)\<close>,
  \<^verbatim>\<open>logger.debug(`Found import: ${pkgName} (raw: ${importPath})`)\<close> and
  \<^verbatim>\<open>logger.warn(`Failed to parse ${file}: ${err.message}. ...`)\<close>.
\<close>

datatype log_entry =
    DebugScanningFile string
  | DebugFoundImport string string
  | WarnFailedToParse string string

type_synonym log = "log_entry list"

record DependencyUsage =
  name :: string
  isUsed :: bool
  filesUsedIn :: "string list"

record AnalyzerOptions =
  checkDevDeps_opt :: "bool option"
  ignore_opt :: "string list option"
  verbose_opt :: "bool option"

record Analyzer =
  checkDevDeps :: bool
  ignore :: js_set
  verbose :: bool

definition new_Analyzer :: "AnalyzerOptions \<Rightarrow> Analyzer" where
  "new_Analyzer options =
     \<lparr> checkDevDeps = (case checkDevDeps_opt options of Some b \<Rightarrow> b | None \<Rightarrow> False),
       ignore = new_Set (case ignore_opt options of Some xs \<Rightarrow> xs | None \<Rightarrow> []),
       verbose = (case verbose_opt options of Some b \<Rightarrow> b | None \<Rightarrow> False) \<rparr>"

definition getDependencies :: "Analyzer \<Rightarrow> project \<Rightarrow> error + js_object" where
  "getDependencies a p =
     (case manifest p of
        Absent \<Rightarrow> Inl ManifestNotFound
      | Unreadable m \<Rightarrow> Inl (ReadJSONFailed m)
      | Manifest pkg \<Rightarrow>
          (let deps = spread [] (dependencies pkg)
           in Inr (if checkDevDeps a
                   then spread (spread [] (Some deps)) (devDependencies pkg)
                   else deps)))"

definition getSourceFiles :: "project \<Rightarrow> string list" where
  "getSourceFiles p = globResult p"

text \<open>
  \<^verbatim>\<open>addDependency\<close>, in three parts: the package name it derives from an import path
  that is neither relative nor absolute, the name of the types package it derives from
  the package name, and the two insertions.
\<close>

definition pkgNameOf :: "string \<Rightarrow> string" where
  "pkgNameOf importPath =
     (let parts = str_split importPath (CHR ''/'')
      in if startsWith importPath ''@''
         then (if length parts \<ge> 2 then (parts ! 0) @ ''/'' @ (parts ! 1) else importPath)
         else (if length parts > 0 then parts ! 0 else importPath))"

definition typesNameOf :: "string \<Rightarrow> string" where
  "typesNameOf pkgName =
     ''@types/'' @ str_replace (str_replace pkgName (CHR ''@'') '''') (CHR ''/'') ''__''"

definition addDependency :: "bool \<Rightarrow> string \<Rightarrow> js_set \<times> log \<Rightarrow> js_set \<times> log" where
  "addDependency vb importPath st =
     (if startsWith importPath ''.'' then st
      else if isAbsolute importPath then st
      else (let pkgName = pkgNameOf importPath;
                lg = (if vb then snd st @ [DebugFoundImport pkgName importPath] else snd st)
            in (set_add (set_add (fst st) pkgName) (typesNameOf pkgName), lg)))"

fun visit :: "bool \<Rightarrow> node \<Rightarrow> js_set \<times> log \<Rightarrow> js_set \<times> log" where
  "visit vb (ImportDeclaration source) st = addDependency vb source st"
| "visit vb (CallExpression c args) st =
     (if c = Identifier ''require'' \<or> c = Import
      then (case args of
              StringLiteral v # _ \<Rightarrow> addDependency vb v st
            | _ \<Rightarrow> st)
      else st)"
| "visit vb (ExportNamedDeclaration source) st =
     (case source of Some v \<Rightarrow> addDependency vb v st | None \<Rightarrow> st)"
| "visit vb (ExportAllDeclaration source) st =
     (case source of Some v \<Rightarrow> addDependency vb v st | None \<Rightarrow> st)"

text \<open>The \<^verbatim>\<open>for (const file of files)\<close> loop with its \<^verbatim>\<open>try\<close>/\<^verbatim>\<open>catch\<close>.\<close>

fun scanFiles :: "Analyzer \<Rightarrow> project \<Rightarrow> string list \<Rightarrow> js_set \<times> log \<Rightarrow> js_set \<times> log" where
  "scanFiles a p [] st = st"
| "scanFiles a p (file # files) st =
     (let st1 = (if verbose a then (fst st, snd st @ [DebugScanningFile file]) else st);
          st2 = (case readAndParse p file of
                   Throws msg \<Rightarrow> (fst st1, snd st1 @ [WarnFailedToParse file msg])
                 | Parsed nodes \<Rightarrow> fold (visit (verbose a)) nodes st1)
      in scanFiles a p files st2)"

text \<open>The two heuristics that follow the loop.\<close>

definition reactDom :: "js_set \<Rightarrow> js_set" where
  "reactDom used = (if set_has used ''react'' then set_add used ''react-dom'' else used)"

definition scopeOf :: "string \<Rightarrow> string" where
  "scopeOf dep = hd (str_split dep (CHR ''/''))"

definition usedScopesOf :: "js_set \<Rightarrow> js_set" where
  "usedScopesOf used =
     fold (\<lambda>usedDep scopes.
             if startsWith usedDep ''@'' then set_add scopes (scopeOf usedDep) else scopes)
          used []"

definition markScopes :: "js_set \<Rightarrow> string list \<Rightarrow> js_set \<Rightarrow> js_set" where
  "markScopes usedScopes deps used =
     fold (\<lambda>dep u.
             if startsWith dep ''@'' \<and> set_has usedScopes (scopeOf dep) then set_add u dep else u)
          deps used"

definition findUsedDependencies ::
  "Analyzer \<Rightarrow> project \<Rightarrow> string list \<Rightarrow> (error + js_set) \<times> log" where
  "findUsedDependencies a p files =
     (let st = scanFiles a p files ([], []);
          used = reactDom (fst st);
          usedScopes = usedScopesOf used
      in if length usedScopes > 0
         then (case getDependencies a p of
                 Inl e \<Rightarrow> (Inl e, snd st)
               | Inr deps \<Rightarrow> (Inr (markScopes usedScopes (Object_keys deps) used), snd st))
         else (Inr used, snd st))"

definition verdict :: "Analyzer \<Rightarrow> js_set \<Rightarrow> string \<Rightarrow> DependencyUsage" where
  "verdict a usedDeps nm =
     (if set_has (ignore a) nm
      then \<lparr> name = nm, isUsed = True, filesUsedIn = [''(ignored)''] \<rparr>
      else \<lparr> name = nm, isUsed = set_has usedDeps nm, filesUsedIn = [] \<rparr>)"

definition analyze :: "Analyzer \<Rightarrow> project \<Rightarrow> (error + DependencyUsage list) \<times> log" where
  "analyze a p =
     (case getDependencies a p of
        Inl e \<Rightarrow> (Inl e, [])
      | Inr deps \<Rightarrow>
          (case findUsedDependencies a p (getSourceFiles p) of
             (Inl e, lg) \<Rightarrow> (Inl e, lg)
           | (Inr usedDeps, lg) \<Rightarrow> (Inr (map (verdict a usedDeps) (Object_keys deps)), lg)))"

section \<open>cleaner.ts\<close>

text \<open>
  \<^verbatim>\<open>delete obj[k]\<close> on an object, and the test \<^verbatim>\<open>if (obj[k])\<close>: the value found
  under \<open>k\<close> is truthy. A version range is a string, which is truthy unless it is empty;
  a name that is no own property is looked up in \<^verbatim>\<open>Object.prototype\<close>, whose members are
  all truthy.
\<close>

definition obj_delete :: "js_object \<Rightarrow> string \<Rightarrow> js_object" where
  "obj_delete obj k = filter (\<lambda>kv. fst kv \<noteq> k) obj"

definition Object_prototype :: "string list" where
  "Object_prototype =
     [''constructor'', ''__defineGetter__'', ''__defineSetter__'', ''hasOwnProperty'',
      ''__lookupGetter__'', ''__lookupSetter__'', ''isPrototypeOf'', ''propertyIsEnumerable'',
      ''toString'', ''valueOf'', ''__proto__'', ''toLocaleString'']"

definition obj_truthy :: "js_object \<Rightarrow> string \<Rightarrow> bool" where
  "obj_truthy obj k =
     (case map_of obj k of
        Some v \<Rightarrow> v \<noteq> []
      | None \<Rightarrow> k \<in> set Object_prototype)"

datatype cleaner_error = CopyFailed | ReadFailed string

text \<open>
  The disk as the cleaner sees it: the project, and the contents of
  \<^verbatim>\<open>package.json.bak\<close> (\<open>Absent\<close> while there is none).
\<close>

record disk =
  proj :: project
  backup :: manifest_file

text \<open>The inner \<^verbatim>\<open>dependenciesToRemove.forEach\<close> on one section, with the count it adds.\<close>

definition removeFrom :: "string list \<Rightarrow> js_object \<Rightarrow> js_object \<times> nat" where
  "removeFrom dependenciesToRemove obj =
     fold (\<lambda>dep st.
             if obj_truthy (fst st) dep then (obj_delete (fst st) dep, snd st + 1) else st)
          dependenciesToRemove (obj, 0)"

text \<open>The body of the outer \<^verbatim>\<open>forEach\<close> for one of the four section names.\<close>

definition cleanSection :: "string list \<Rightarrow> js_object option \<Rightarrow> js_object option \<times> nat" where
  "cleanSection dependenciesToRemove section =
     (case section of
        None \<Rightarrow> (None, 0)
      | Some obj \<Rightarrow>
          (let r = removeFrom dependenciesToRemove obj
           in (if length (Object_keys (fst r)) = 0 then None else Some (fst r), snd r)))"

definition cleanPackage :: "string list \<Rightarrow> package_json \<Rightarrow> package_json \<times> nat" where
  "cleanPackage dependenciesToRemove pkg =
     (let r1 = cleanSection dependenciesToRemove (dependencies pkg);
          r2 = cleanSection dependenciesToRemove (devDependencies pkg);
          r3 = cleanSection dependenciesToRemove (peerDependencies pkg);
          r4 = cleanSection dependenciesToRemove (optionalDependencies pkg)
      in (\<lparr> dependencies = fst r1, devDependencies = fst r2,
             peerDependencies = fst r3, optionalDependencies = fst r4 \<rparr>,
          snd r1 + snd r2 + snd r3 + snd r4))"

text \<open>
  \<^verbatim>\<open>removeDependencies\<close> returns the disk it leaves and either the error it throws or
  the count it logs (\<open>None\<close> for the early return on an empty list, which logs nothing).
\<close>

definition removeDependencies ::
  "string list \<Rightarrow> disk \<Rightarrow> disk \<times> (cleaner_error + nat option)" where
  "removeDependencies dependenciesToRemove d =
     (if length dependenciesToRemove = 0 then (d, Inr None)
      else (case manifest (proj d) of
              Absent \<Rightarrow> (d, Inl CopyFailed)
            | Unreadable m \<Rightarrow> (d\<lparr>backup := Unreadable m\<rparr>, Inl (ReadFailed m))
            | Manifest pkg \<Rightarrow>
                (let r = cleanPackage dependenciesToRemove pkg
                 in (d\<lparr>backup := Manifest pkg,
                       proj := (proj d)\<lparr>manifest := Manifest (fst r)\<rparr>\<rparr>,
                     Inr (Some (snd r))))))"

section \<open>config.ts\<close>

text \<open>
  A value that \<^verbatim>\<open>JSON.parse\<close> returns (an object has each key once). \<^verbatim>\<open>JSON.parse\<close>
  itself is a parameter of \<open>loadConfig\<close>: a function from the text to the value, \<open>None\<close>
  where it throws.
\<close>

datatype json =
    JNull
  | JBool bool
  | JNumber int
  | JString string
  | JArray "json list"
  | JObject "(string \<times> json) list"

text \<open>
  What \<^verbatim>\<open>fs.pathExists\<close> and \<^verbatim>\<open>fs.readFile\<close> find under a path resolved against the root
  directory: nothing, something that cannot be read, or a file with its text.
\<close>

datatype fs_entry = NoEntry | ReadError | File string

record Config =
  ignoreList :: "json list"

definition defaultIgnore :: "json list" where
  "defaultIgnore = [JString ''@types/node'', JString ''typescript'', JString ''ts-node'']"

text \<open>
  \<^verbatim>\<open>l.trim()\<close> removes white space at both ends. The white space of the model is that
  of ASCII; the spaces beyond ASCII that \<^verbatim>\<open>trim\<close> also removes are not modelled.
\<close>

definition isWhiteSpace :: "char \<Rightarrow> bool" where
  "isWhiteSpace c = (c \<in> set [CHR '' '', CHR 0x09, CHR 0x0A, CHR 0x0B, CHR 0x0C, CHR 0x0D])"

definition trim :: "string \<Rightarrow> string" where
  "trim s = rev (dropWhile isWhiteSpace (rev (dropWhile isWhiteSpace s)))"

text \<open>
  The elements that the \<^verbatim>\<open>.json\<close> branch pushes: those of \<^verbatim>\<open>jsonConfig.ignore\<close> when it
  is an array. Reading a property of \<^verbatim>\<open>null\<close> throws (\<open>None\<close>); any other value without
  the property gives \<^verbatim>\<open>undefined\<close>, and nothing is pushed.
\<close>

definition jsonIgnore :: "json \<Rightarrow> json list option" where
  "jsonIgnore jsonConfig =
     (case jsonConfig of
        JNull \<Rightarrow> None
      | JObject kvs \<Rightarrow>
          (case map_of kvs ''ignore'' of
             Some (JArray xs) \<Rightarrow> Some xs
           | _ \<Rightarrow> Some [])
      | _ \<Rightarrow> Some [])"

text \<open>
  One round of the \<^verbatim>\<open>for (const file of possibleConfigFiles)\<close> loop. The state is the
  configuration and the files that \<^verbatim>\<open>console.warn\<close> has named.
\<close>

definition loadFile ::
  "(string \<Rightarrow> json option) \<Rightarrow> (string \<Rightarrow> fs_entry) \<Rightarrow> string \<Rightarrow> Config \<times> string list
     \<Rightarrow> Config \<times> string list" where
  "loadFile JSON_parse lookupPath file st =
     (case lookupPath file of
        NoEntry \<Rightarrow> st
      | ReadError \<Rightarrow> (fst st, snd st @ [file])
      | File content \<Rightarrow>
          (if \<not> endsWith file ''.json''
           then (let lines = filter (\<lambda>l. l \<noteq> [] \<and> \<not> startsWith l ''#'')
                               (map trim (str_split content (CHR 0x0A)))
                 in ((fst st)\<lparr>ignoreList := ignoreList (fst st) @ map JString lines\<rparr>, snd st))
           else (case JSON_parse content of
                   None \<Rightarrow> (fst st, snd st @ [file])
                 | Some jsonConfig \<Rightarrow>
                     (case jsonIgnore jsonConfig of
                        None \<Rightarrow> (fst st, snd st @ [file])
                      | Some xs \<Rightarrow>
                          ((fst st)\<lparr>ignoreList := ignoreList (fst st) @ xs\<rparr>, snd st)))))"

definition loadConfig ::
  "(string \<Rightarrow> json option) \<Rightarrow> (string \<Rightarrow> fs_entry) \<Rightarrow> string option \<Rightarrow> Config \<times> string list" where
  "loadConfig JSON_parse lookupPath ignoreFile =
     (let possibleConfigFiles =
            (case ignoreFile of
               None \<Rightarrow> [''.unusedignore'', ''.unusedrc.json'']
             | Some f \<Rightarrow> if f \<noteq> [] then [f] else [''.unusedignore'', ''.unusedrc.json''])
      in fold (loadFile JSON_parse lookupPath) possibleConfigFiles
           (\<lparr> ignoreList = defaultIgnore \<rparr>, []))"

section \<open>cli.ts: the scan command\<close>

text \<open>
  The options that commander passes to the action, and what the action does that can be
  observed: the exit code of the process (\<open>0\<close> when the action returns, \<open>1\<close> after
  \<^verbatim>\<open>process.exit(1)\<close>), the error message it logs and the names it prints as unused. The
  option \<^verbatim>\<open>--verbose\<close> adds two lines to the console and changes nothing else (the action
  does not pass it to the analyzer); it is left out, as are the spinner and the summary
  lines.
\<close>

record scan_options =
  dev :: "bool option"
  ignoreFile :: "string option"

record scan_outcome =
  exitCode :: nat
  errorLogged :: "string option"
  printedUnused :: "string list"
  analyzerLog :: log

text \<open>
  The ignore list goes to \<^verbatim>\<open>new Set\<close>, and \<^verbatim>\<open>Set.has\<close> compares a dependency name with
  the members by value: a member that is not a string equals no name, and is left out.
\<close>

fun jsonStrings :: "json list \<Rightarrow> string list" where
  "jsonStrings [] = []"
| "jsonStrings (JString s # js) = s # jsonStrings js"
| "jsonStrings (_ # js) = jsonStrings js"

definition scan ::
  "(string \<Rightarrow> json option) \<Rightarrow> (string \<Rightarrow> fs_entry) \<Rightarrow> project \<Rightarrow> scan_options \<Rightarrow> scan_outcome" where
  "scan JSON_parse lookupPath p options =
     (let config = fst (loadConfig JSON_parse lookupPath (ignoreFile options));
          analyzer = new_Analyzer \<lparr> checkDevDeps_opt = dev options,
                                    ignore_opt = Some (jsonStrings (ignoreList config)),
                                    verbose_opt = None \<rparr>
      in (case analyze analyzer p of
            (Inr results, lg) \<Rightarrow>
              \<lparr> exitCode = 0, errorLogged = None,
                printedUnused = map name (filter (\<lambda>r. \<not> isUsed r) results),
                analyzerLog = lg \<rparr>
          | (Inl err, lg) \<Rightarrow>
              \<lparr> exitCode = 1, errorLogged = Some (message err),
                printedUnused = [], analyzerLog = lg \<rparr>))"

section \<open>Notions of the specification\<close>

text \<open>
  A specifier that the normalizer must drop: a relative path (it begins with a dot) or
  an absolute filesystem path.
\<close>

definition isPath :: "string \<Rightarrow> bool" where
  "isPath x = (startsWith x ''.'' \<or> isAbsolute x)"

text \<open>
  The declared dependencies of the data model: every name of every section, in the order
  in which the manifest lists them, with the kind of its section.
\<close>

datatype sectionKind = Runtime | Dev | Peer | Optional

definition sectionNames :: "js_object option \<Rightarrow> string list" where
  "sectionNames section = (case section of None \<Rightarrow> [] | Some obj \<Rightarrow> map fst obj)"

definition declaredDependencies :: "package_json \<Rightarrow> (string \<times> sectionKind) list" where
  "declaredDependencies pkg =
     map (\<lambda>n. (n, Runtime)) (sectionNames (dependencies pkg)) @
     map (\<lambda>n. (n, Dev)) (sectionNames (devDependencies pkg)) @
     map (\<lambda>n. (n, Peer)) (sectionNames (peerDependencies pkg)) @
     map (\<lambda>n. (n, Optional)) (sectionNames (optionalDependencies pkg))"

text \<open>
  The synthetic identifier in the words of the specification: the leading \<^verbatim>\<open>@\<close> is
  stripped, the internal slash becomes two underscores, and \<^verbatim>\<open>@types/\<close> is put in front.
\<close>

definition spec_typesIdentifier :: "string \<Rightarrow> string" where
  "spec_typesIdentifier c =
     ''@types/'' @ str_replace (if startsWith c ''@'' then tl c else c) (CHR ''/'') ''__''"

section \<open>Example projects\<close>

text \<open>
  The scenario of the specification: three declared dependencies, and one file that
  holds \<^verbatim>\<open>import _ from 'lodash'\<close>.
\<close>

definition lodashProject :: project where
  "lodashProject =
     \<lparr> manifest = Manifest
         \<lparr> dependencies = Some [(''lodash'', ''*''), (''@types/lodash'', ''*''), (''leftpad'', ''*'')],
           devDependencies = None, peerDependencies = None, optionalDependencies = None \<rparr>,
       globResult = [''/app/index.js''],
       readAndParse = (\<lambda>f. if f = ''/app/index.js'' then Parsed [ImportDeclaration ''lodash'']
                           else Throws ''ENOENT'') \<rparr>"

text \<open>
  A component library: \<^verbatim>\<open>a.tsx\<close> imports from \<^verbatim>\<open>@acme/button\<close> and requires a local
  file, \<^verbatim>\<open>b.js\<close> re-exports an absolute path and imports \<^verbatim>\<open>react\<close> dynamically, and
  \<^verbatim>\<open>bad.js\<close> does not parse.
\<close>

definition acmePackage :: package_json where
  "acmePackage =
     \<lparr> dependencies = Some [(''@acme/button'', ''^1.0.0''), (''@acme/icons'', ''^1.0.0''),
                            (''leftpad'', ''*'')],
       devDependencies = Some [(''typescript'', ''^5.0.0''), (''leftpad'', ''^2.0.0'')],
       peerDependencies = Some [(''react'', ''^18.0.0'')],
       optionalDependencies = None \<rparr>"

definition acmeProject :: project where
  "acmeProject =
     \<lparr> manifest = Manifest acmePackage,
       globResult = [''/app/a.tsx'', ''/app/bad.js'', ''/app/b.js''],
       readAndParse =
         (\<lambda>f. if f = ''/app/a.tsx''
              then Parsed [ImportDeclaration ''@acme/button/lib'',
                           CallExpression (Identifier ''require'') [StringLiteral ''./local'']]
              else if f = ''/app/b.js''
              then Parsed [ExportAllDeclaration (Some ''/opt/lib/x''),
                           CallExpression Import [StringLiteral ''react'']]
              else Throws ''Unexpected token'') \<rparr>"

definition plainAnalyzer :: Analyzer where
  "plainAnalyzer = \<lparr> checkDevDeps = False, ignore = [''leftpad''], verbose = False \<rparr>"

definition devAnalyzer :: Analyzer where
  "devAnalyzer = \<lparr> checkDevDeps = True, ignore = [], verbose = True \<rparr>"



text \<open>
  Names that are array indices: \<^verbatim>\<open>7\<close> after \<^verbatim>\<open>lodash\<close> in \<^verbatim>\<open>dependencies\<close>, and
  \<^verbatim>\<open>101\<close> with \<^verbatim>\<open>typescript\<close> in \<^verbatim>\<open>devDependencies\<close>. There is no source file.
\<close>

definition indexNamePackage :: package_json where
  "indexNamePackage =
     \<lparr> dependencies = Some [(''lodash'', ''*''), (''7'', ''^1.0.0'')],
       devDependencies = Some [(''typescript'', ''^5.0.0''), (''101'', ''^1.0.0''),
                               (''lodash'', ''^4.0.0'')],
       peerDependencies = None, optionalDependencies = None \<rparr>"

definition indexNameProject :: project where
  "indexNameProject =
     \<lparr> manifest = Manifest indexNamePackage, globResult = [],
       readAndParse = (\<lambda>f. Throws ''ENOENT'') \<rparr>"

text \<open>A directory without a manifest.\<close>

definition emptyDirectory :: project where
  "emptyDirectory =
     \<lparr> manifest = Absent, globResult = [], readAndParse = (\<lambda>f. Throws ''ENOENT'') \<rparr>"

text \<open>
  A manifest whose only dependency has the empty version range, which npm reads as
  \<^verbatim>\<open>*\<close>; no source file refers to it.
\<close>

definition emptyVersionProject :: project where
  "emptyVersionProject =
     \<lparr> manifest = Manifest
         \<lparr> dependencies = Some [(''foo'', '''')], devDependencies = None,
           peerDependencies = None, optionalDependencies = None \<rparr>,
       globResult = [], readAndParse = (\<lambda>f. Throws ''ENOENT'') \<rparr>"

text \<open>
  Ignore files: none at all; and an \<^verbatim>\<open>.unusedignore\<close> with a comment and one name beside
  an \<^verbatim>\<open>.unusedrc.json\<close> that \<^verbatim>\<open>JSON.parse\<close> rejects.
\<close>

definition noConfig :: "string \<Rightarrow> fs_entry" where
  "noConfig file = NoEntry"

definition brokenConfig :: "string \<Rightarrow> fs_entry" where
  "brokenConfig file =
     (if file = ''.unusedignore'' then File (''# kept'' @ [CHR 0x0A] @ '' lodash '' @ [CHR 0x0A])
      else if file = ''.unusedrc.json'' then File ''{ignore''
      else NoEntry)"

definition noJSON :: "string \<Rightarrow> json option" where
  "noJSON content = None"

definition defaultOptions :: scan_options where
  "defaultOptions = \<lparr> dev = None, ignoreFile = None \<rparr>"

section \<open>Basic facts\<close>

lemma str_split_not_Nil: "str_split s sep \<noteq> []"
  by (induction s) (auto split: list.splits)

lemma set_set_add: "set (set_add s x) = insert x (set s)"
  by (auto simp: set_add_def set_has_def)

lemma str_split_no_sep: "sep \<notin> set s \<Longrightarrow> str_split s sep = [s]"
  by (induction s) auto

lemma str_split_short: "length (str_split s sep) < 2 \<Longrightarrow> sep \<notin> set s"
  using str_split_not_Nil [of _ sep]
  by (induction s) (auto split: list.splits if_splits)

lemma str_replace_absent: "pat \<notin> set s \<Longrightarrow> str_replace s pat rep = s"
  by (induction s) auto

lemma hd_str_split:
  "s \<noteq> [] \<Longrightarrow> hd s \<noteq> sep \<Longrightarrow>
     hd (str_split s sep) \<noteq> [] \<and> hd (hd (str_split s sep)) = hd s"
  by (cases s) (auto split: list.splits)

lemma isPath_iff: "isPath x = (x \<noteq> [] \<and> (hd x = CHR ''.'' \<or> hd x = CHR ''/''))"
  by (cases x) (auto simp: isPath_def startsWith_def isAbsolute_def)

lemma startsWith_at: "startsWith x ''@'' = (x \<noteq> [] \<and> hd x = CHR ''@'')"
  by (cases x) (auto simp: startsWith_def)

subsection \<open>No path enters the usage set\<close>

lemma pkgNameOf_not_path: "\<not> isPath s \<Longrightarrow> \<not> isPath (pkgNameOf s)"
proof (cases "startsWith s ''@''")
  case True
  assume "\<not> isPath s"
  then show ?thesis using True
    by (cases s)
       (auto simp: pkgNameOf_def Let_def isPath_iff startsWith_at nth_append
          str_split_not_Nil split: list.splits)
next
  case False
  assume np: "\<not> isPath s"
  have eq: "pkgNameOf s = hd (str_split s (CHR ''/''))"
    using False str_split_not_Nil [of s "CHR ''/''"]
    by (simp add: pkgNameOf_def Let_def hd_conv_nth)
  show ?thesis
  proof (cases s)
    case Nil
    then show ?thesis using eq by (simp add: isPath_iff)
  next
    case (Cons c cs)
    then have "s \<noteq> []" and "hd s \<noteq> CHR ''/''"
      using np by (auto simp: isPath_iff)
    from hd_str_split [OF this] show ?thesis
      using np eq Cons by (auto simp: isPath_iff)
  qed
qed

lemma typesNameOf_not_path: "\<not> isPath (typesNameOf c)"
  by (simp add: typesNameOf_def isPath_iff)

lemma addDependency_path: "isPath s \<Longrightarrow> addDependency vb s st = st"
  by (auto simp: addDependency_def isPath_def)

lemma addDependency_set:
  "set (fst (addDependency vb s st)) =
     (if isPath s then set (fst st)
      else insert (typesNameOf (pkgNameOf s)) (insert (pkgNameOf s) (set (fst st))))"
  by (auto simp: addDependency_def isPath_def Let_def set_set_add)

lemma addDependency_inv:
  "\<forall>x\<in>set (fst st). \<not> isPath x \<Longrightarrow> \<forall>x\<in>set (fst (addDependency vb s st)). \<not> isPath x"
  by (auto simp: addDependency_set pkgNameOf_not_path typesNameOf_not_path split: if_splits)

lemma visit_inv:
  "\<forall>x\<in>set (fst st). \<not> isPath x \<Longrightarrow> \<forall>x\<in>set (fst (visit vb n st)). \<not> isPath x"
  by (cases n)
     (auto dest: addDependency_inv split: list.splits argument.splits option.splits)

lemma fold_visit_inv:
  "\<forall>x\<in>set (fst st). \<not> isPath x \<Longrightarrow> \<forall>x\<in>set (fst (fold (visit vb) ns st)). \<not> isPath x"
proof (induction ns arbitrary: st)
  case Nil
  then show ?case by simp
next
  case (Cons n ns)
  from Cons.IH [OF visit_inv [OF Cons.prems]] show ?case by simp
qed

lemma scanFiles_inv:
  "\<forall>x\<in>set (fst st). \<not> isPath x \<Longrightarrow> \<forall>x\<in>set (fst (scanFiles a p files st)). \<not> isPath x"
proof (induction files arbitrary: st)
  case Nil
  then show ?case by simp
next
  case (Cons f fs)
  let ?st1 = "if verbose a then (fst st, snd st @ [DebugScanningFile f]) else st"
  let ?st2 = "case readAndParse p f of
                Throws msg \<Rightarrow> (fst ?st1, snd ?st1 @ [WarnFailedToParse f msg])
              | Parsed nodes \<Rightarrow> fold (visit (verbose a)) nodes ?st1"
  have 1: "\<forall>x\<in>set (fst ?st1). \<not> isPath x"
    using Cons.prems by simp
  have 2: "\<forall>x\<in>set (fst ?st2). \<not> isPath x"
  proof (cases "readAndParse p f")
    case (Throws m)
    then show ?thesis using 1 by simp
  next
    case (Parsed ns)
    then show ?thesis using fold_visit_inv [OF 1] by simp
  qed
  from Cons.IH [OF 2] show ?case by (simp add: Let_def)
qed

lemma reactDom_set:
  "set (reactDom u) = (if ''react'' \<in> set u then insert ''react-dom'' (set u) else set u)"
  by (simp add: reactDom_def set_set_add set_has_def)

lemma reactDom_inv: "\<forall>x\<in>set u. \<not> isPath x \<Longrightarrow> \<forall>x\<in>set (reactDom u). \<not> isPath x"
  by (auto simp: reactDom_set isPath_iff split: if_splits)

lemma markScopes_set:
  "set (markScopes sc deps u) =
     set u \<union> {d \<in> set deps. startsWith d ''@'' \<and> scopeOf d \<in> set sc}"
  unfolding markScopes_def
  by (induction deps arbitrary: u) (auto simp: set_set_add set_has_def)

lemma markScopes_inv:
  "\<forall>x\<in>set u. \<not> isPath x \<Longrightarrow> \<forall>x\<in>set (markScopes sc deps u). \<not> isPath x"
  by (auto simp: markScopes_set isPath_iff startsWith_at)



lemma findUsedDependencies_inv:
  assumes "fst (findUsedDependencies a p files) = Inr usedDeps"
  shows "\<forall>x\<in>set usedDeps. \<not> isPath x"
proof -
  let ?u = "reactDom (fst (scanFiles a p files ([], [])))"
  have u: "\<forall>x\<in>set ?u. \<not> isPath x"
    by (rule reactDom_inv, rule scanFiles_inv) simp
  show ?thesis
  proof (cases "length (usedScopesOf ?u) > 0")
    case False
    with assms have "usedDeps = ?u"
      by (simp add: findUsedDependencies_def Let_def)
    with u show ?thesis by simp
  next
    case True
    with assms obtain deps where
      "usedDeps = markScopes (usedScopesOf ?u) (Object_keys deps) ?u"
      by (auto simp: findUsedDependencies_def Let_def split: sum.splits)
    with markScopes_inv [OF u] show ?thesis by simp
  qed
qed

text \<open>
  C6. A specifier that is a relative path (it begins with a dot) or an absolute path
  makes \<open>addDependency\<close> return without an insertion, and no such string is a member of
  the usage set: not after the loop over the files, not after the \<^verbatim>\<open>react-dom\<close>
  heuristic, and not in the set that \<open>findUsedDependencies\<close> returns to \<open>analyze\<close> after
  the shared-scope heuristic.
\<close>

theorem paths_never_in_usage_set:
  "(isPath importPath \<longrightarrow> addDependency vb importPath st = st) \<and>
   (\<forall>x\<in>set (fst (scanFiles a p files ([], []))). \<not> isPath x) \<and>
   (\<forall>x\<in>set (reactDom (fst (scanFiles a p files ([], [])))). \<not> isPath x) \<and>
   (\<forall>usedDeps. fst (findUsedDependencies a p files) = Inr usedDeps \<longrightarrow>
      (\<forall>x\<in>set usedDeps. \<not> isPath x))"
proof (intro conjI allI impI)
  show "isPath importPath \<Longrightarrow> addDependency vb importPath st = st"
    by (rule addDependency_path)
  show "\<forall>x\<in>set (fst (scanFiles a p files ([], []))). \<not> isPath x"
    by (rule scanFiles_inv) simp
  show "\<forall>x\<in>set (reactDom (fst (scanFiles a p files ([], [])))). \<not> isPath x"
    by (rule reactDom_inv, rule scanFiles_inv) simp
  show "\<And>usedDeps. fst (findUsedDependencies a p files) = Inr usedDeps \<Longrightarrow>
          \<forall>x\<in>set usedDeps. \<not> isPath x"
    by (rule findUsedDependencies_inv)
qed

theorem paths_never_in_usage_set_witness:
  "isPath ''./local'' \<and> isPath ''/opt/lib/x'' \<and>
   addDependency False ''./local'' ([''react''], []) = ([''react''], []) \<and>
   addDependency False ''/opt/lib/x'' ([''react''], []) = ([''react''], []) \<and>
   fst (findUsedDependencies plainAnalyzer acmeProject (getSourceFiles acmeProject)) =
     Inr [''@acme/button'', ''@types/acme__button'', ''react'', ''@types/react'',
          ''react-dom'', ''@acme/icons''] \<and>
   \<not> isPath ''@acme/button'' \<and> \<not> isPath ''react-dom'' \<and> \<not> isPath ''@acme/icons''"
proof -
  have p1: "isPath ''./local''" and p2: "isPath ''/opt/lib/x''"
    by code_simp+
  have u: "fst (findUsedDependencies plainAnalyzer acmeProject (getSourceFiles acmeProject)) =
     Inr [''@acme/button'', ''@types/acme__button'', ''react'', ''@types/react'',
          ''react-dom'', ''@acme/icons'']"
    by code_simp
  note t1 = paths_never_in_usage_set [of "''./local''" False "([''react''], [])"
      plainAnalyzer acmeProject "getSourceFiles acmeProject"]
  note t2 = paths_never_in_usage_set [of "''/opt/lib/x''" False "([''react''], [])"
      plainAnalyzer acmeProject "getSourceFiles acmeProject"]
  from t1 t2 p1 p2 u show ?thesis by simp
qed

subsection \<open>The verdicts\<close>

lemma name_verdict: "name (verdict a u n) = n"
  by (simp add: verdict_def)

lemma isUsed_verdict: "isUsed (verdict a u n) = (set_has (ignore a) n \<or> set_has u n)"
  by (simp add: verdict_def)


lemma map_name_verdict: "map name (map (verdict a u) ns) = ns"
  by (induction ns) (simp_all add: name_verdict)




subsection \<open>Scoped specifiers without a slash\<close>

text \<open>
  C2, as the specification states it, fails: for the scoped specifier \<^verbatim>\<open>@foo\<close>, which
  has one segment, \<open>addDependency\<close> inserts the specifier and a types identifier.
\<close>

theorem scoped_without_slash_counterexample:
  "startsWith ''@foo'' ''@'' \<and> length (str_split ''@foo'' (CHR ''/'')) = 1 \<and>
   addDependency False ''@foo'' ([], []) = ([''@foo'', ''@types/foo''], [])"
  by code_simp

text \<open>
  C2, amended. For a scoped specifier with fewer than two segments the package name is
  the whole specifier: \<open>addDependency\<close> inserts the specifier itself and then
  \<^verbatim>\<open>@types/\<close> followed by the specifier without its leading \<^verbatim>\<open>@\<close>.
\<close>

theorem scoped_without_slash_kept_whole:
  assumes "startsWith importPath ''@''"
    and "length (str_split importPath (CHR ''/'')) < 2"
  shows "fst (addDependency vb importPath (used, lg)) =
           set_add (set_add used importPath) (''@types/'' @ tl importPath)"
proof -
  from assms(2) have ns: "CHR ''/'' \<notin> set importPath"
    by (rule str_split_short)
  from assms(1) obtain r where r: "importPath = CHR ''@'' # r"
    by (cases importPath) (auto simp: startsWith_def)
  have 1: "\<not> startsWith importPath ''.''"
    using r by (simp add: startsWith_def)
  have 2: "\<not> isAbsolute importPath"
    using r by (simp add: isAbsolute_def)
  have 3: "pkgNameOf importPath = importPath"
    using assms by (simp add: pkgNameOf_def Let_def)
  have 4: "typesNameOf importPath = ''@types/'' @ tl importPath"
    using r ns by (simp add: typesNameOf_def str_replace_absent)
  show ?thesis
    using 1 2 3 4 by (simp add: addDependency_def Let_def)
qed

theorem scoped_without_slash_kept_whole_witness:
  "startsWith ''@foo'' ''@'' \<and> length (str_split ''@foo'' (CHR ''/'')) < 2 \<and>
   fst (addDependency True ''@foo'' ([''react''], [])) = [''react'', ''@foo'', ''@types/foo'']"
proof -
  have h1: "startsWith ''@foo'' ''@''"
    by code_simp
  have h2: "length (str_split ''@foo'' (CHR ''/'')) < 2"
    by code_simp
  have e: "set_add (set_add [''react''] ''@foo'') (''@types/'' @ tl ''@foo'') =
             [''react'', ''@foo'', ''@types/foo'']"
    by code_simp
  from scoped_without_slash_kept_whole [OF h1 h2, of True "[''react'']" "[]"] h1 h2 e
  show ?thesis by simp
qed

subsection \<open>The keys of the dependency object\<close>

lemma analyze_success:
  assumes "getDependencies a p = Inr deps"
    and "fst (findUsedDependencies a p (getSourceFiles p)) = Inr usedDeps"
  shows "analyze a p =
           (Inr (map (verdict a usedDeps) (Object_keys deps)),
            snd (findUsedDependencies a p (getSourceFiles p)))"
  using assms
  by (cases "findUsedDependencies a p (getSourceFiles p)") (simp add: analyze_def)

lemma findUsedDependencies_total:
  assumes "getDependencies a p = Inr deps"
  shows "\<exists>usedDeps. fst (findUsedDependencies a p files) = Inr usedDeps"
  using assms by (simp add: findUsedDependencies_def Let_def)

lemma set_ownPropertyKeys: "set (ownPropertyKeys ks) = set ks"
  by (auto simp: ownPropertyKeys_def)

lemma distinct_ownPropertyKeys: "distinct ks \<Longrightarrow> distinct (ownPropertyKeys ks)"
  by (auto simp: ownPropertyKeys_def)

lemma length_ownPropertyKeys: "length (ownPropertyKeys ks) = length ks"
  by (simp add: ownPropertyKeys_def sum_length_filter_compl)

lemma ownPropertyKeys_no_index:
  assumes "\<forall>k\<in>set ks. \<not> isArrayIndex k"
  shows "ownPropertyKeys ks = ks"
proof -
  have "filter isArrayIndex ks = []"
    using assms by (induction ks) auto
  moreover have "filter (\<lambda>k. \<not> isArrayIndex k) ks = ks"
    using assms by (induction ks) auto
  ultimately show ?thesis
    by (simp add: ownPropertyKeys_def)
qed

lemma set_Object_keys: "set (Object_keys obj) = fst ` set obj"
  by (simp add: Object_keys_def set_ownPropertyKeys)

lemma length_Object_keys: "length (Object_keys obj) = length obj"
  by (simp add: Object_keys_def length_ownPropertyKeys)

lemma map_fst_obj_set:
  "map fst (obj_set obj k v) =
     (if k \<in> fst ` set obj then map fst obj else map fst obj @ [k])"
  by (induction obj) (force simp: image_iff)+





lemma keys_spread_fold:
  assumes "distinct ks" and "set ks \<subseteq> fst ` set kvs"
  shows "map fst (fold (\<lambda>k obj. case map_of kvs k of None \<Rightarrow> obj | Some v \<Rightarrow> obj_set obj k v)
                    ks target) =
           map fst target @ filter (\<lambda>k. k \<notin> fst ` set target) ks"
  using assms
proof (induction ks arbitrary: target)
  case Nil
  then show ?case by simp
next
  case (Cons k ks)
  from Cons.prems have "k \<in> fst ` set kvs"
    by auto
  then obtain v where v: "map_of kvs k = Some v"
    using map_of_eq_None_iff [of kvs k] by (cases "map_of kvs k") auto
  let ?t = "obj_set target k v"
  from Cons.prems have d: "distinct ks" and s: "set ks \<subseteq> fst ` set kvs" and n: "k \<notin> set ks"
    by auto
  have ih: "map fst (fold (\<lambda>k obj. case map_of kvs k of None \<Rightarrow> obj | Some v \<Rightarrow> obj_set obj k v)
                      ks ?t) =
              map fst ?t @ filter (\<lambda>k. k \<notin> fst ` set ?t) ks"
    by (rule Cons.IH [OF d s])
  have keys: "fst ` set ?t = set (map fst ?t)"
    by simp
  show ?case
  proof (cases "k \<in> fst ` set target")
    case True
    then show ?thesis
      using v ih unfolding keys by (simp add: map_fst_obj_set)
  next
    case False
    have "filter (\<lambda>x. x \<noteq> k \<and> x \<notin> fst ` set target) ks =
          filter (\<lambda>x. x \<notin> fst ` set target) ks"
      using n by (intro filter_cong refl) auto
    then show ?thesis
      using False v ih unfolding keys by (simp add: map_fst_obj_set)
  qed
qed

lemma keys_spread:
  assumes "distinct (sectionNames src)"
  shows "map fst (spread target src) =
           map fst target @
           filter (\<lambda>k. k \<notin> fst ` set target) (ownPropertyKeys (sectionNames src))"
proof (cases src)
  case None
  then show ?thesis
    by (simp add: spread_def sectionNames_def ownPropertyKeys_def)
next
  case (Some kvs)
  with assms have "distinct (Object_keys kvs)"
    by (simp add: sectionNames_def Object_keys_def distinct_ownPropertyKeys)
  moreover have "set (Object_keys kvs) \<subseteq> fst ` set kvs"
    by (simp add: set_Object_keys)
  ultimately show ?thesis
    using Some by (simp add: spread_def sectionNames_def keys_spread_fold Object_keys_def)
qed

text \<open>Sorting is stable, so sorting two sorted halves again is sorting the whole.\<close>

lemma sort_key_append_sorted:
  "sort_key f (sort_key f xs @ sort_key f ys) = sort_key f (xs @ ys)"
proof -
  let ?ys = "sort_key f (sort_key f xs @ sort_key f ys)"
  have "sort_key f (xs @ ys) = ?ys"
  proof (rule properties_for_sort_key)
    show "mset ?ys = mset (xs @ ys)"
      by simp
    show "sorted (map f ?ys)"
      by simp
    show "filter (\<lambda>x. f k = f x) ?ys = filter (\<lambda>x. f k = f x) (xs @ ys)" for k
    proof -
      have c: "(\<lambda>x. f k = f x) = (\<lambda>x. f x = f k)"
        by auto
      show ?thesis
        unfolding c by (simp add: sort_key_stable)
    qed
  qed
  then show ?thesis by simp
qed

lemma filter_swap: "filter P (filter Q xs) = filter Q (filter P xs)"
  by (induction xs) auto

lemma filter_not_index: "filter isArrayIndex (filter (\<lambda>k. \<not> isArrayIndex k) xs) = []"
  by (induction xs) auto

lemma filter_index_not: "filter (\<lambda>k. \<not> isArrayIndex k) (filter isArrayIndex xs) = []"
  by (induction xs) auto

lemma ownPropertyKeys_merge:
  "ownPropertyKeys (ownPropertyKeys xs @ filter Q (ownPropertyKeys ys)) =
     ownPropertyKeys (xs @ filter Q ys)"
proof -
  let ?ix = "filter isArrayIndex xs" and ?iy = "filter Q (filter isArrayIndex ys)"
  let ?nx = "filter (\<lambda>k. \<not> isArrayIndex k) xs"
  let ?ny = "filter Q (filter (\<lambda>k. \<not> isArrayIndex k) ys)"
  have q: "filter Q (ownPropertyKeys ys) = sort_key indexValue ?iy @ ?ny"
    by (simp add: ownPropertyKeys_def filter_sort del: filter_filter)
  have i: "filter isArrayIndex (ownPropertyKeys xs @ filter Q (ownPropertyKeys ys)) =
             sort_key indexValue ?ix @ sort_key indexValue ?iy"
    unfolding q by (simp add: ownPropertyKeys_def filter_sort cong: conj_cong)
  have n: "filter (\<lambda>k. \<not> isArrayIndex k) (ownPropertyKeys xs @ filter Q (ownPropertyKeys ys)) =
             ?nx @ ?ny"
    unfolding q by (simp add: ownPropertyKeys_def filter_sort cong: conj_cong)
  have r: "ownPropertyKeys (xs @ filter Q ys) =
             sort_key indexValue (?ix @ ?iy) @ ?nx @ ?ny"
    by (simp add: ownPropertyKeys_def filter_swap [of isArrayIndex Q]
        filter_swap [of "\<lambda>k. \<not> isArrayIndex k" Q] del: filter_filter)
  show ?thesis
    unfolding ownPropertyKeys_def [of "ownPropertyKeys xs @ filter Q (ownPropertyKeys ys)"] i n r
    by (simp only: sort_key_append_sorted)
qed

lemma ownPropertyKeys_idem: "ownPropertyKeys (ownPropertyKeys xs) = ownPropertyKeys xs"
  using ownPropertyKeys_merge [of xs "\<lambda>k. True" "[]"] by (simp add: ownPropertyKeys_def)

lemma Object_keys_getDependencies:
  assumes "manifest p = Manifest pkg"
    and "distinct (sectionNames (dependencies pkg))"
    and "distinct (sectionNames (devDependencies pkg))"
  shows "\<exists>deps. getDependencies a p = Inr deps \<and>
           Object_keys deps =
             ownPropertyKeys
               (sectionNames (dependencies pkg) @
                (if checkDevDeps a
                 then filter (\<lambda>n. n \<notin> set (sectionNames (dependencies pkg)))
                        (sectionNames (devDependencies pkg))
                 else []))"
proof -
  let ?ds = "sectionNames (dependencies pkg)" and ?vs = "sectionNames (devDependencies pkg)"
  let ?d1 = "spread [] (dependencies pkg)"
  let ?d2 = "spread [] (Some ?d1)"
  have k1: "map fst ?d1 = ownPropertyKeys ?ds"
    using keys_spread [OF assms(2), of "[]"] by simp
  then have "distinct (sectionNames (Some ?d1))"
    using assms(2) by (simp add: sectionNames_def distinct_ownPropertyKeys)
  from keys_spread [OF this, of "[]"] have k2: "map fst ?d2 = ownPropertyKeys ?ds"
    using k1 by (simp add: sectionNames_def ownPropertyKeys_idem)
  have "set (map fst ?d2) = set ?ds"
    by (simp only: k2 set_ownPropertyKeys)
  then have s2: "fst ` set ?d2 = set ?ds"
    by simp
  have k3: "map fst (spread ?d2 (devDependencies pkg)) =
              ownPropertyKeys ?ds @ filter (\<lambda>n. n \<notin> set ?ds) (ownPropertyKeys ?vs)"
    using keys_spread [OF assms(3), of ?d2] k2 s2 by simp
  have plain: "Object_keys ?d1 = ownPropertyKeys ?ds"
    by (simp add: Object_keys_def k1 ownPropertyKeys_idem)
  have merged: "Object_keys (spread ?d2 (devDependencies pkg)) =
                  ownPropertyKeys (?ds @ filter (\<lambda>n. n \<notin> set ?ds) ?vs)"
    by (simp add: Object_keys_def k3 ownPropertyKeys_merge)
  show ?thesis
    using assms(1) plain merged by (simp add: getDependencies_def Let_def)
qed

subsection \<open>The shared-scope heuristic\<close>

lemma hd_str_split_prefix: "sep \<notin> set s \<Longrightarrow> hd (str_split (s @ sep # r) sep) = s"
proof (induction s)
  case Nil
  then show ?case by simp
next
  case (Cons c cs)
  then have ih: "hd (str_split (cs @ sep # r) sep) = cs" and ne: "c \<noteq> sep"
    by auto
  obtain x xs where x: "str_split (cs @ sep # r) sep = x # xs"
    using str_split_not_Nil [of "cs @ sep # r" sep]
    by (cases "str_split (cs @ sep # r) sep") auto
  with ih have "x = cs" by simp
  with x ne show ?case by simp
qed

text \<open>
  The scope of a name is its first segment: a name that begins with \<^verbatim>\<open>@s/\<close> has the
  scope \<^verbatim>\<open>@s\<close>.
\<close>

lemma scopeOf_prefix:
  assumes "CHR ''/'' \<notin> set sc"
    and "startsWith d (sc @ ''/'')"
  shows "scopeOf d = sc"
proof -
  from assms(2) have "d = (sc @ ''/'') @ drop (length (sc @ ''/'')) d"
    unfolding startsWith_def by (metis append_take_drop_id)
  then obtain r where r: "d = sc @ CHR ''/'' # r"
    by simp
  with assms(1) show ?thesis
    by (simp add: scopeOf_def hd_str_split_prefix)
qed




subsection \<open>The synthetic types identifier\<close>

text \<open>
  C4, as the specification states it, fails: the unscoped specifier \<^verbatim>\<open>a@b\<close> is its own
  canonical identifier, it has no leading \<^verbatim>\<open>@\<close> to strip, and the identifier of the
  specification is \<^verbatim>\<open>@types/a@b\<close>; \<open>addDependency\<close> inserts \<^verbatim>\<open>@types/ab\<close>.
\<close>

theorem types_identifier_counterexample:
  "\<not> isPath ''a@b'' \<and> pkgNameOf ''a@b'' = ''a@b'' \<and>
   spec_typesIdentifier ''a@b'' = ''@types/a@b'' \<and>
   fst (addDependency False ''a@b'' ([], [])) = [''a@b'', ''@types/ab''] \<and>
   \<not> set_has (fst (addDependency False ''a@b'' ([], []))) (spec_typesIdentifier ''a@b'')"
  by code_simp

lemma typesNameOf_spec:
  assumes "startsWith c ''@'' \<or> CHR ''@'' \<notin> set c"
  shows "typesNameOf c = spec_typesIdentifier c"
proof (cases "startsWith c ''@''")
  case True
  then obtain r where "c = CHR ''@'' # r"
    by (cases c) (auto simp: startsWith_def)
  then show ?thesis
    using True by (simp add: typesNameOf_def spec_typesIdentifier_def)
next
  case False
  with assms have "CHR ''@'' \<notin> set c"
    by simp
  then show ?thesis
    using False by (simp add: typesNameOf_def spec_typesIdentifier_def str_replace_absent)
qed

lemma lodash_import:
  "fst (addDependency vb ''lodash'' ([], lg)) = [''lodash'', ''@types/lodash'']"
  by (simp add: addDependency_def startsWith_def isAbsolute_def pkgNameOf_def typesNameOf_def
      Let_def set_add_def set_has_def)

lemma lodash_scan:
  "fst (scanFiles a lodashProject (getSourceFiles lodashProject) ([], [])) =
     [''lodash'', ''@types/lodash'']"
  by (simp add: lodashProject_def getSourceFiles_def lodash_import)

lemma lodash_deps:
  "getDependencies a lodashProject =
     Inr [(''lodash'', ''*''), (''@types/lodash'', ''*''), (''leftpad'', ''*'')]"
proof -
  have "spread [] (Some [(''lodash'', ''*''), (''@types/lodash'', ''*''), (''leftpad'', ''*'')]) =
          [(''lodash'', ''*''), (''@types/lodash'', ''*''), (''leftpad'', ''*'')]"
    by code_simp
  then show ?thesis
    by (simp add: getDependencies_def lodashProject_def Let_def) (simp add: spread_def)
qed

lemma lodash_used:
  "fst (findUsedDependencies a lodashProject (getSourceFiles lodashProject)) =
     Inr [''lodash'', ''@types/lodash'']"
proof -
  have r: "reactDom [''lodash'', ''@types/lodash''] = [''lodash'', ''@types/lodash'']"
    by code_simp
  have s: "usedScopesOf [''lodash'', ''@types/lodash''] = [''@types'']"
    by code_simp
  have m: "markScopes [''@types'']
             (Object_keys [(''lodash'', ''*''), (''@types/lodash'', ''*''), (''leftpad'', ''*'')])
             [''lodash'', ''@types/lodash''] = [''lodash'', ''@types/lodash'']"
    by code_simp
  show ?thesis
    by (simp add: findUsedDependencies_def Let_def lodash_scan lodash_deps r s m)
qed

lemma lodash_verdicts:
  assumes "\<not> set_has (ignore a) ''leftpad''"
  shows "map (\<lambda>r. (name r, isUsed r))
           (map (verdict a [''lodash'', ''@types/lodash''])
              (Object_keys [(''lodash'', ''*''), (''@types/lodash'', ''*''), (''leftpad'', ''*'')]))
         = [(''lodash'', True), (''@types/lodash'', True), (''leftpad'', False)]"
proof -
  have "Object_keys [(''lodash'', ''*''), (''@types/lodash'', ''*''), (''leftpad'', ''*'')] =
          [''lodash'', ''@types/lodash'', ''leftpad'']"
    by code_simp
  then show ?thesis
    using assms by (simp add: name_verdict isUsed_verdict set_has_def)
qed

text \<open>
  C4, amended. For a specifier that is not a path, with the canonical identifier \<open>c\<close>,
  \<open>addDependency\<close> leaves in the usage set both \<open>c\<close> and \<^verbatim>\<open>@types/\<close> followed by \<open>c\<close>
  with its first \<^verbatim>\<open>@\<close> removed and its first slash replaced by two underscores. When \<open>c\<close>
  is scoped or holds no \<^verbatim>\<open>@\<close>, that is the identifier of the specification (leading
  \<^verbatim>\<open>@\<close> stripped, internal slash replaced). In the scenario of the specification, an
  analyzer that does not ignore \<^verbatim>\<open>leftpad\<close> reports \<^verbatim>\<open>lodash\<close> and \<^verbatim>\<open>@types/lodash\<close> as
  used and \<^verbatim>\<open>leftpad\<close> as unused.
\<close>

theorem types_identifier_added:
  assumes "\<not> isPath importPath"
    and "c = pkgNameOf importPath"
    and "used = fst (addDependency vb importPath st)"
  shows "set_has used c \<and>
         set_has used
           (''@types/'' @ str_replace (str_replace c (CHR ''@'') '''') (CHR ''/'') ''__'') \<and>
         (startsWith c ''@'' \<or> CHR ''@'' \<notin> set c \<longrightarrow> set_has used (spec_typesIdentifier c)) \<and>
         (\<not> set_has (ignore a) ''leftpad'' \<longrightarrow>
            (\<exists>results. fst (analyze a lodashProject) = Inr results \<and>
               map (\<lambda>r. (name r, isUsed r)) results =
                 [(''lodash'', True), (''@types/lodash'', True), (''leftpad'', False)]))"
proof (intro conjI impI)
  have s: "set used = insert (typesNameOf c) (insert c (set (fst st)))"
    using assms by (simp add: addDependency_set)
  show "set_has used c"
    using s by (simp add: set_has_def)
  show "set_has used
      (''@types/'' @ str_replace (str_replace c (CHR ''@'') '''') (CHR ''/'') ''__'')"
    using s by (simp add: set_has_def typesNameOf_def)
  show "set_has used (spec_typesIdentifier c)"
    if "startsWith c ''@'' \<or> CHR ''@'' \<notin> set c"
    using s typesNameOf_spec [OF that] by (simp add: set_has_def)
  show "\<exists>results. fst (analyze a lodashProject) = Inr results \<and>
               map (\<lambda>r. (name r, isUsed r)) results =
                 [(''lodash'', True), (''@types/lodash'', True), (''leftpad'', False)]"
    if "\<not> set_has (ignore a) ''leftpad''"
    using lodash_verdicts [OF that]
    by (simp add: analyze_success [OF lodash_deps lodash_used])
qed

theorem types_identifier_added_witness:
  "\<not> isPath ''@acme/button/lib'' \<and> pkgNameOf ''@acme/button/lib'' = ''@acme/button'' \<and>
   fst (addDependency False ''@acme/button/lib'' ([], [])) =
     [''@acme/button'', ''@types/acme__button''] \<and>
   startsWith ''@acme/button'' ''@'' \<and>
   spec_typesIdentifier ''@acme/button'' = ''@types/acme__button'' \<and>
   set_has [''@acme/button'', ''@types/acme__button''] ''@types/acme__button'' \<and>
   \<not> set_has (ignore devAnalyzer) ''leftpad'' \<and>
   (\<exists>results. fst (analyze devAnalyzer lodashProject) = Inr results \<and>
      map (\<lambda>r. (name r, isUsed r)) results =
        [(''lodash'', True), (''@types/lodash'', True), (''leftpad'', False)])"
proof -
  have h1: "\<not> isPath ''@acme/button/lib''"
    by code_simp
  have h2: "''@acme/button'' = pkgNameOf ''@acme/button/lib''"
    by code_simp
  have h3: "[''@acme/button'', ''@types/acme__button''] =
      fst (addDependency False ''@acme/button/lib'' ([], []))"
    by code_simp
  have h4: "startsWith ''@acme/button'' ''@''"
    by code_simp
  have h5: "spec_typesIdentifier ''@acme/button'' = ''@types/acme__button''"
    by code_simp
  have h6: "\<not> set_has (ignore devAnalyzer) ''leftpad''"
    by code_simp
  from types_identifier_added [OF h1 h2 h3, of devAnalyzer]
    h1 h2 [symmetric] h3 [symmetric] h4 h5 h6
  show ?thesis by simp
qed

subsection \<open>One verdict for each name that is analysed\<close>

text \<open>
  C5, as the specification states it, fails: \<^verbatim>\<open>react\<close> is declared as a peer dependency
  and \<^verbatim>\<open>typescript\<close> as a development dependency, and \<open>analyze\<close> returns no verdict for
  either without the development flag, and none for \<^verbatim>\<open>react\<close> with it.
\<close>

theorem every_section_kind_counterexample:
  "declaredDependencies acmePackage =
     [(''@acme/button'', Runtime), (''@acme/icons'', Runtime), (''leftpad'', Runtime),
      (''typescript'', Dev), (''leftpad'', Dev), (''react'', Peer)] \<and>
   fst (analyze plainAnalyzer acmeProject) =
     Inr [\<lparr>name = ''@acme/button'', isUsed = True, filesUsedIn = []\<rparr>,
          \<lparr>name = ''@acme/icons'', isUsed = True, filesUsedIn = []\<rparr>,
          \<lparr>name = ''leftpad'', isUsed = True, filesUsedIn = [''(ignored)'']\<rparr>] \<and>
   fst (analyze devAnalyzer acmeProject) =
     Inr [\<lparr>name = ''@acme/button'', isUsed = True, filesUsedIn = []\<rparr>,
          \<lparr>name = ''@acme/icons'', isUsed = True, filesUsedIn = []\<rparr>,
          \<lparr>name = ''leftpad'', isUsed = False, filesUsedIn = []\<rparr>,
          \<lparr>name = ''typescript'', isUsed = False, filesUsedIn = []\<rparr>]"
  by code_simp

text \<open>
  C5, amended. Once the manifest has been read, \<open>analyze\<close> does not fail, and it returns
  exactly one verdict for each name of the \<^verbatim>\<open>dependencies\<close> section and, only when
  \<open>checkDevDeps\<close> is set, for each name of \<^verbatim>\<open>devDependencies\<close> that \<^verbatim>\<open>dependencies\<close>
  does not list. The verdicts stand in the order in which \<^verbatim>\<open>Object.keys\<close> enumerates
  these names: those that are array indices first, in ascending numeric order, then the
  others in the order of declaration, \<^verbatim>\<open>dependencies\<close> before \<^verbatim>\<open>devDependencies\<close>. When
  no name is an array index this is the order of declaration. The peer and the optional
  sections are not read.
\<close>

theorem one_verdict_per_analyzed_name:
  assumes "manifest p = Manifest pkg"
    and "distinct (sectionNames (dependencies pkg))"
    and "distinct (sectionNames (devDependencies pkg))"
    and "analysed =
           sectionNames (dependencies pkg) @
           (if checkDevDeps a
            then filter (\<lambda>n. n \<notin> set (sectionNames (dependencies pkg)))
                   (sectionNames (devDependencies pkg))
            else [])"
  shows "\<exists>results. fst (analyze a p) = Inr results \<and>
           map name results =
             sort_key indexValue (filter isArrayIndex analysed) @
             filter (\<lambda>n. \<not> isArrayIndex n) analysed \<and>
           distinct (map name results) \<and>
           ((\<forall>n\<in>set analysed. \<not> isArrayIndex n) \<longrightarrow> map name results = analysed)"
proof -
  from Object_keys_getDependencies [OF assms(1-3), of a] assms(4) obtain deps where
    g: "getDependencies a p = Inr deps" and
    k: "Object_keys deps = ownPropertyKeys analysed"
    by auto
  from findUsedDependencies_total [OF g] obtain usedDeps where
    u: "fst (findUsedDependencies a p (getSourceFiles p)) = Inr usedDeps"
    by blast
  have r: "fst (analyze a p) = Inr (map (verdict a usedDeps) (Object_keys deps))"
    by (simp add: analyze_success [OF g u])
  have n: "map name (map (verdict a usedDeps) (Object_keys deps)) = ownPropertyKeys analysed"
    by (simp only: map_name_verdict k)
  have "distinct analysed"
    unfolding assms(4) using assms(2,3) by auto
  then have dist: "distinct (ownPropertyKeys analysed)"
    by (rule distinct_ownPropertyKeys)
  have plain: "ownPropertyKeys analysed = analysed" if "\<forall>n\<in>set analysed. \<not> isArrayIndex n"
    using that by (rule ownPropertyKeys_no_index)
  show ?thesis
    using r n dist plain by (auto simp: ownPropertyKeys_def)
qed

theorem one_verdict_per_analyzed_name_witness:
  "manifest indexNameProject = Manifest indexNamePackage \<and>
   sectionNames (dependencies indexNamePackage) = [''lodash'', ''7''] \<and>
   sectionNames (devDependencies indexNamePackage) = [''typescript'', ''101'', ''lodash''] \<and>
   checkDevDeps devAnalyzer \<and>
   (\<exists>results. fst (analyze devAnalyzer indexNameProject) = Inr results \<and>
      map name results = [''7'', ''101'', ''lodash'', ''typescript''] \<and>
      distinct (map name results)) \<and>
   manifest acmeProject = Manifest acmePackage \<and>
   (\<exists>results. fst (analyze devAnalyzer acmeProject) = Inr results \<and>
      map name results = [''@acme/button'', ''@acme/icons'', ''leftpad'', ''typescript''])"
proof -
  have h1: "manifest indexNameProject = Manifest indexNamePackage"
    by code_simp
  have n1: "sectionNames (dependencies indexNamePackage) = [''lodash'', ''7'']"
    and n2: "sectionNames (devDependencies indexNamePackage) = [''typescript'', ''101'', ''lodash'']"
    by code_simp+
  have h2: "distinct (sectionNames (dependencies indexNamePackage))"
    and h3: "distinct (sectionNames (devDependencies indexNamePackage))"
    by code_simp+
  have h4: "checkDevDeps devAnalyzer"
    by code_simp
  have e: "sort_key indexValue (filter isArrayIndex [''lodash'', ''7'', ''typescript'', ''101'']) @
           filter (\<lambda>n. \<not> isArrayIndex n) [''lodash'', ''7'', ''typescript'', ''101''] =
           [''7'', ''101'', ''lodash'', ''typescript'']"
    by code_simp
  have a: "[''lodash'', ''7'', ''typescript'', ''101''] =
             sectionNames (dependencies indexNamePackage) @
             (if checkDevDeps devAnalyzer
              then filter (\<lambda>n. n \<notin> set (sectionNames (dependencies indexNamePackage)))
                     (sectionNames (devDependencies indexNamePackage))
              else [])"
    by code_simp
  have g1: "manifest acmeProject = Manifest acmePackage"
    by code_simp
  have g2: "distinct (sectionNames (dependencies acmePackage))"
    and g3: "distinct (sectionNames (devDependencies acmePackage))"
    by code_simp+
  have b: "[''@acme/button'', ''@acme/icons'', ''leftpad'', ''typescript''] =
             sectionNames (dependencies acmePackage) @
             (if checkDevDeps devAnalyzer
              then filter (\<lambda>n. n \<notin> set (sectionNames (dependencies acmePackage)))
                     (sectionNames (devDependencies acmePackage))
              else [])"
    by code_simp
  have c: "\<forall>n\<in>set [''@acme/button'', ''@acme/icons'', ''leftpad'', ''typescript'']. \<not> isArrayIndex n"
    by code_simp
  from one_verdict_per_analyzed_name [OF h1 h2 h3 a] one_verdict_per_analyzed_name [OF g1 g2 g3 b]
    h1 n1 n2 h4 e g1 c
  show ?thesis by auto
qed

subsection \<open>A missing manifest\<close>

text \<open>
  C8. When there is no \<^verbatim>\<open>package.json\<close> at the project root, \<open>analyze\<close> throws the
  error with the message \<^verbatim>\<open>package.json not found\<close> and returns no verdict, and the scan
  command logs the message, prints no name and ends the process with the exit code 1.
\<close>

theorem missing_manifest_is_fatal:
  assumes "manifest p = Absent"
  shows "analyze a p = (Inl ManifestNotFound, []) \<and>
         scan JSON_parse lookupPath p options =
           \<lparr> exitCode = 1, errorLogged = Some ''package.json not found'',
             printedUnused = [], analyzerLog = [] \<rparr>"
proof -
  have "\<And>a. getDependencies a p = Inl ManifestNotFound"
    using assms by (simp add: getDependencies_def)
  then have "\<And>a. analyze a p = (Inl ManifestNotFound, [])"
    by (simp add: analyze_def)
  then show ?thesis by (simp add: scan_def Let_def)
qed

theorem missing_manifest_is_fatal_witness:
  "manifest emptyDirectory = Absent \<and>
   analyze plainAnalyzer emptyDirectory = (Inl ManifestNotFound, []) \<and>
   scan noJSON noConfig emptyDirectory defaultOptions =
     \<lparr> exitCode = 1, errorLogged = Some ''package.json not found'',
       printedUnused = [], analyzerLog = [] \<rparr>"
proof -
  have h: "manifest emptyDirectory = Absent"
    by code_simp
  from missing_manifest_is_fatal [OF h, of plainAnalyzer noJSON noConfig defaultOptions] h
  show ?thesis by simp
qed

subsection \<open>A file that does not parse\<close>

lemma fst_addDependency_cong:
  "fst st = fst st' \<Longrightarrow> fst (addDependency vb s st) = fst (addDependency vb s st')"
  by (simp add: addDependency_def Let_def)

lemma fst_visit_cong:
  "fst st = fst st' \<Longrightarrow> fst (visit vb n st) = fst (visit vb n st')"
  by (cases n) (auto intro: fst_addDependency_cong split: list.splits argument.splits option.splits)

lemma fst_fold_visit_cong:
  "fst st = fst st' \<Longrightarrow> fst (fold (visit vb) ns st) = fst (fold (visit vb) ns st')"
proof (induction ns arbitrary: st st')
  case Nil then show ?case by simp
next
  case (Cons n ns)
  from Cons.IH [OF fst_visit_cong [OF Cons.prems]] show ?case by simp
qed

lemma fst_scanFiles_cong:
  "fst st = fst st' \<Longrightarrow> fst (scanFiles a p files st) = fst (scanFiles a p files st')"
proof (induction files arbitrary: st st')
  case Nil then show ?case by simp
next
  case (Cons f fs)
  show ?case
  proof (cases "readAndParse p f")
    case (Throws m)
    then show ?thesis using Cons.prems by (auto intro!: Cons.IH simp: Let_def)
  next
    case (Parsed ns)
    then show ?thesis using Cons.prems
      by (auto intro!: Cons.IH fst_fold_visit_cong simp: Let_def)
  qed
qed

lemma scanFiles_append:
  "scanFiles a p (xs @ ys) st = scanFiles a p ys (scanFiles a p xs st)"
  by (induction xs arbitrary: st) (simp_all add: Let_def)

lemma snd_addDependency: "\<exists>l. snd (addDependency vb s st) = snd st @ l"
  by (simp add: addDependency_def Let_def)

lemma snd_visit: "\<exists>l. snd (visit vb n st) = snd st @ l"
  by (cases n) (auto simp: snd_addDependency split: list.splits argument.splits option.splits)

lemma snd_fold_visit: "\<exists>l. snd (fold (visit vb) ns st) = snd st @ l"
proof (induction ns arbitrary: st)
  case Nil then show ?case by simp
next
  case (Cons n ns)
  from snd_visit [of vb n st] obtain l1 where 1: "snd (visit vb n st) = snd st @ l1" by blast
  from Cons.IH [of "visit vb n st"] obtain l2 where
    "snd (fold (visit vb) ns (visit vb n st)) = snd (visit vb n st) @ l2" by blast
  with 1 show ?case by simp
qed

lemma snd_scanFiles: "\<exists>l. snd (scanFiles a p files st) = snd st @ l"
proof (induction files arbitrary: st)
  case Nil then show ?case by simp
next
  case (Cons f fs)
  let ?st1 = "if verbose a then (fst st, snd st @ [DebugScanningFile f]) else st"
  let ?st2 = "case readAndParse p f of
                Throws msg \<Rightarrow> (fst ?st1, snd ?st1 @ [WarnFailedToParse f msg])
              | Parsed nodes \<Rightarrow> fold (visit (verbose a)) nodes ?st1"
  have 1: "\<exists>l. snd ?st1 = snd st @ l" by simp
  have 2: "\<exists>l. snd ?st2 = snd ?st1 @ l"
    using snd_fold_visit [of "verbose a" _ ?st1] by (cases "readAndParse p f") simp_all
  from Cons.IH [of ?st2] obtain l3 where 3: "snd (scanFiles a p fs ?st2) = snd ?st2 @ l3" by blast
  from 1 2 3 obtain l where "snd (scanFiles a p fs ?st2) = snd st @ l" by (metis append.assoc)
  then show ?case by (simp add: Let_def)
qed

lemma scanFiles_globResult: "scanFiles a (p\<lparr>globResult := g\<rparr>) files st = scanFiles a p files st"
  by (induction files arbitrary: st) (simp_all add: Let_def)

lemma getDependencies_globResult: "getDependencies a (p\<lparr>globResult := g\<rparr>) = getDependencies a p"
  by (simp add: getDependencies_def)

lemma fst_findUsedDependencies_cong:
  assumes "fst (scanFiles a p files ([], [])) = fst (scanFiles a p files' ([], []))"
  shows "fst (findUsedDependencies a p files) = fst (findUsedDependencies a p files')"
  using assms by (simp add: findUsedDependencies_def Let_def split: sum.splits)

lemma scanFiles_throws:
  assumes "readAndParse p file = Throws msg"
  shows "fst (scanFiles a p (before @ file # after) st) = fst (scanFiles a p (before @ after) st)"
    and "WarnFailedToParse file msg \<in> set (snd (scanFiles a p (before @ file # after) st))"
proof -
  let ?s = "scanFiles a p before st"
  let ?s1 = "if verbose a then (fst ?s, snd ?s @ [DebugScanningFile file]) else ?s"
  let ?s2 = "(fst ?s1, snd ?s1 @ [WarnFailedToParse file msg])"
  have step: "scanFiles a p (before @ file # after) st = scanFiles a p after ?s2"
    using assms by (simp add: scanFiles_append Let_def)
  have "fst ?s2 = fst ?s" by simp
  then have "fst (scanFiles a p after ?s2) = fst (scanFiles a p after ?s)"
    by (rule fst_scanFiles_cong)
  then show "fst (scanFiles a p (before @ file # after) st) = fst (scanFiles a p (before @ after) st)"
    unfolding step scanFiles_append [of a p before after] .
  from snd_scanFiles [of a p after ?s2] obtain l where "snd (scanFiles a p after ?s2) = snd ?s2 @ l"
    by blast
  then show "WarnFailedToParse file msg \<in> set (snd (scanFiles a p (before @ file # after) st))"
    by (simp only: step) simp
qed

lemma snd_findUsedDependencies:
  "getDependencies a p = Inr deps \<Longrightarrow>
   snd (findUsedDependencies a p files) = snd (scanFiles a p files ([], []))"
  by (simp add: findUsedDependencies_def Let_def)

lemma getDependencies_Manifest:
  "manifest p = Manifest pkg \<Longrightarrow> \<exists>deps. getDependencies a p = Inr deps"
  by (simp add: getDependencies_def Let_def)

lemma analyze_total:
  assumes "manifest p = Manifest pkg"
  shows "\<exists>results lg. analyze a p = (Inr results, lg)"
proof -
  from getDependencies_Manifest [OF assms] obtain deps where g: "getDependencies a p = Inr deps"
    by blast
  from findUsedDependencies_total [OF g] obtain usedDeps where
    "fst (findUsedDependencies a p (getSourceFiles p)) = Inr usedDeps"
    by blast
  from analyze_success [OF g this] show ?thesis
    by blast
qed

lemma scan_exit_0:
  assumes "manifest p = Manifest pkg"
  shows "exitCode (scan JSON_parse lookupPath p options) = 0"
proof -
  let ?a = "new_Analyzer
    \<lparr> checkDevDeps_opt = dev options,
      ignore_opt = Some (jsonStrings
        (ignoreList (fst (loadConfig JSON_parse lookupPath (ignoreFile options))))),
      verbose_opt = None \<rparr>"
  from analyze_total [OF assms, of ?a] obtain results lg where
    "analyze ?a p = (Inr results, lg)"
    by blast
  then show ?thesis
    by (simp add: scan_def Let_def)
qed

text \<open>
  C7. Let the \<^verbatim>\<open>try\<close> block throw for one of the files that the glob returned, in a
  project whose manifest can be read. Then the usage set after the loop is the one of the
  same list without that file (the file adds no reference, and every other file is
  scanned); \<open>analyze\<close> returns its verdicts, the same as for the project without the
  file, with a warning in its log that names the file and the message; and the scan
  command ends with the exit code 0.
\<close>

theorem parse_failure_is_absorbed:
  assumes thr: "readAndParse p file = Throws msg"
    and man: "manifest p = Manifest pkg"
    and glob: "globResult p = before @ file # after"
  shows "fst (scanFiles a p (before @ file # after) ([], [])) =
           fst (scanFiles a p (before @ after) ([], [])) \<and>
         (\<exists>results lg. analyze a p = (Inr results, lg) \<and>
            WarnFailedToParse file msg \<in> set lg \<and>
            fst (analyze a (p\<lparr>globResult := before @ after\<rparr>)) = Inr results) \<and>
         exitCode (scan JSON_parse lookupPath p options) = 0"
proof (intro conjI)
  show eq: "fst (scanFiles a p (before @ file # after) ([], [])) =
           fst (scanFiles a p (before @ after) ([], []))"
    by (rule scanFiles_throws(1) [OF thr])
  from getDependencies_Manifest [OF man] obtain deps where g: "getDependencies a p = Inr deps"
    by blast
  from findUsedDependencies_total [OF g] obtain usedDeps where
    u: "fst (findUsedDependencies a p (getSourceFiles p)) = Inr usedDeps" by blast
  let ?q = "p\<lparr>globResult := before @ after\<rparr>"
  have gq: "getDependencies a ?q = Inr deps"
    using g by (simp add: getDependencies_globResult)
  have "fst (findUsedDependencies a ?q (getSourceFiles ?q)) = fst (findUsedDependencies a p (before @ after))"
    by (simp add: findUsedDependencies_def Let_def getSourceFiles_def scanFiles_globResult getDependencies_globResult)
  also have "\<dots> = fst (findUsedDependencies a p (before @ file # after))"
    by (rule fst_findUsedDependencies_cong) (simp add: eq)
  finally have uq: "fst (findUsedDependencies a ?q (getSourceFiles ?q)) = Inr usedDeps"
    using u glob by (simp add: getSourceFiles_def)
  have w: "WarnFailedToParse file msg \<in> set (snd (findUsedDependencies a p (getSourceFiles p)))"
    using scanFiles_throws(2) [OF thr, of a before after "([], [])"] glob
    by (simp add: snd_findUsedDependencies [OF g] getSourceFiles_def)
  show "\<exists>results lg. analyze a p = (Inr results, lg) \<and>
            WarnFailedToParse file msg \<in> set lg \<and>
            fst (analyze a ?q) = Inr results"
    using w by (simp add: analyze_success [OF g u] analyze_success [OF gq uq])
  show "exitCode (scan JSON_parse lookupPath p options) = 0"
    by (rule scan_exit_0 [OF man])
qed

theorem parse_failure_is_absorbed_witness:
  "readAndParse acmeProject ''/app/bad.js'' = Throws ''Unexpected token'' \<and>
   manifest acmeProject = Manifest acmePackage \<and>
   globResult acmeProject = [''/app/a.tsx''] @ ''/app/bad.js'' # [''/app/b.js''] \<and>
   fst (scanFiles devAnalyzer acmeProject [''/app/a.tsx'', ''/app/b.js''] ([], [])) =
     [''@acme/button'', ''@types/acme__button'', ''react'', ''@types/react''] \<and>
   fst (scanFiles devAnalyzer acmeProject ([''/app/a.tsx''] @ ''/app/bad.js'' # [''/app/b.js''])
          ([], [])) =
     [''@acme/button'', ''@types/acme__button'', ''react'', ''@types/react''] \<and>
   (\<exists>results lg. analyze devAnalyzer acmeProject = (Inr results, lg) \<and>
      WarnFailedToParse ''/app/bad.js'' ''Unexpected token'' \<in> set lg \<and>
      fst (analyze devAnalyzer (acmeProject\<lparr>globResult := [''/app/a.tsx''] @ [''/app/b.js'']\<rparr>)) =
        Inr results) \<and>
   exitCode (scan noJSON noConfig acmeProject defaultOptions) = 0"
proof -
  have h1: "readAndParse acmeProject ''/app/bad.js'' = Throws ''Unexpected token''"
    by code_simp
  have h2: "manifest acmeProject = Manifest acmePackage"
    by code_simp
  have h3: "globResult acmeProject = [''/app/a.tsx''] @ ''/app/bad.js'' # [''/app/b.js'']"
    by code_simp
  have e: "fst (scanFiles devAnalyzer acmeProject ([''/app/a.tsx''] @ [''/app/b.js'']) ([], [])) =
     [''@acme/button'', ''@types/acme__button'', ''react'', ''@types/react'']"
    by code_simp
  from parse_failure_is_absorbed [OF h1 h2 h3, of devAnalyzer noJSON noConfig defaultOptions]
    h1 h2 h3 e
  show ?thesis by simp
qed

subsection \<open>Removing dependencies from the manifest\<close>

lemma obj_delete_absent: "k \<notin> fst ` set obj \<Longrightarrow> obj_delete obj k = obj"
  by (induction obj) (auto simp: obj_delete_def)

lemma removeFrom_step:
  assumes "distinct (map fst obj)"
  shows "fst (if obj_truthy obj d then (obj_delete obj d, Suc n) else (obj, n)) =
           filter (\<lambda>kv. \<not> (fst kv = d \<and> snd kv \<noteq> [])) obj"
proof (cases "map_of obj d")
  case None
  then have "d \<notin> fst ` set obj" by (simp add: map_of_eq_None_iff)
  then have "obj_delete obj d = obj" and "filter (\<lambda>kv. \<not> (fst kv = d \<and> snd kv \<noteq> [])) obj = obj"
    by (auto simp: obj_delete_absent intro!: filter_True)
  then show ?thesis by simp
next
  case (Some v)
  with assms have u: "\<And>w. (d, w) \<in> set obj \<longleftrightarrow> w = v"
    by (metis map_of_SomeD map_of_is_SomeI option.inject)
  have "filter (\<lambda>kv. fst kv \<noteq> d) obj = filter (\<lambda>kv. \<not> (fst kv = d \<and> snd kv \<noteq> [])) obj" if "v \<noteq> []"
    using u that by (intro filter_cong refl) (metis prod.collapse)
  moreover have "filter (\<lambda>kv. \<not> (fst kv = d \<and> snd kv \<noteq> [])) obj = obj" if "v = []"
    using u that by (intro filter_True) (metis prod.collapse)
  ultimately show ?thesis using Some by (auto simp: obj_truthy_def obj_delete_def)
qed

lemma removeFrom_fold:
  "distinct (map fst obj) \<Longrightarrow>
   fst (fold (\<lambda>dep st. if obj_truthy (fst st) dep then (obj_delete (fst st) dep, snd st + 1) else st)
          ds (obj, n::nat)) =
     filter (\<lambda>kv. \<not> (fst kv \<in> set ds \<and> snd kv \<noteq> [])) obj"
proof (induction ds arbitrary: obj n)
  case Nil
  then show ?case by simp
next
  case (Cons d ds)
  define step where
    "step = (\<lambda>dep (st :: js_object \<times> nat).
               if obj_truthy (fst st) dep then (obj_delete (fst st) dep, snd st + 1) else st)"
  define st where "st = step d (obj, n)"
  have f: "fst st = filter (\<lambda>kv. \<not> (fst kv = d \<and> snd kv \<noteq> [])) obj"
    using removeFrom_step [OF Cons.prems, of d n] by (auto simp: st_def step_def split: if_splits)
  then have dist: "distinct (map fst (fst st))"
    using Cons.prems by (simp add: distinct_map_filter)
  have "fst (fold step (d # ds) (obj, n)) = fst (fold step ds (fst st, snd st))"
    by (simp add: st_def)
  also have "\<dots> = filter (\<lambda>kv. \<not> (fst kv \<in> set ds \<and> snd kv \<noteq> [])) (fst st)"
    unfolding step_def by (rule Cons.IH [OF dist])
  also have "\<dots> = filter (\<lambda>kv. \<not> (fst kv \<in> set (d # ds) \<and> snd kv \<noteq> [])) obj"
    unfolding f by (auto intro: filter_cong)
  finally show ?case
    by (simp add: step_def)
qed

text \<open>
  What the cleaner does to a section: it removes the entries that are named and have a
  non-empty version range, keeps every other entry as it is, and drops the section when
  nothing is left.
\<close>

lemma removeFrom_entries:
  "distinct (map fst obj) \<Longrightarrow>
   fst (removeFrom ds obj) = filter (\<lambda>kv. \<not> (fst kv \<in> set ds \<and> snd kv \<noteq> [])) obj"
  by (simp add: removeFrom_def removeFrom_fold)

lemma cleanSection_entries:
  assumes "distinct (map fst obj)"
  shows "fst (cleanSection ds (Some obj)) =
           (if filter (\<lambda>kv. \<not> (fst kv \<in> set ds \<and> snd kv \<noteq> [])) obj = [] then None
            else Some (filter (\<lambda>kv. \<not> (fst kv \<in> set ds \<and> snd kv \<noteq> [])) obj))"
  by (simp add: cleanSection_def Let_def length_Object_keys removeFrom_entries [OF assms])

text \<open>
  C9 does not hold of the code. \<^verbatim>\<open>foo\<close> is declared with the empty version range and
  used nowhere: the scan reports it as unused, and \<open>removeDependencies\<close>, asked to remove
  it, writes the manifest back with \<^verbatim>\<open>foo\<close> still in \<^verbatim>\<open>dependencies\<close> and counts no
  removal, because \<^verbatim>\<open>if (pkg[depType][dep])\<close> tests the version range, not the key.
\<close>

theorem empty_version_range_not_removed:
  "printedUnused (scan noJSON noConfig emptyVersionProject defaultOptions) = [''foo''] \<and>
   removeDependencies [''foo''] \<lparr> proj = emptyVersionProject, backup = Absent \<rparr> =
     (\<lparr> proj = emptyVersionProject, backup = manifest emptyVersionProject \<rparr>, Inr (Some 0)) \<and>
   manifest emptyVersionProject =
     Manifest \<lparr> dependencies = Some [(''foo'', '''')], devDependencies = None,
                peerDependencies = None, optionalDependencies = None \<rparr>"
proof -
  have reported: "printedUnused (scan noJSON noConfig emptyVersionProject defaultOptions) = [''foo'']"
    by code_simp
  have cleaned: "cleanPackage [''foo'']
      \<lparr> dependencies = Some [(''foo'', '''')], devDependencies = None,
        peerDependencies = None, optionalDependencies = None \<rparr> =
      (\<lparr> dependencies = Some [(''foo'', '''')], devDependencies = None,
         peerDependencies = None, optionalDependencies = None \<rparr>, 0)"
    by code_simp
  have written: "removeDependencies [''foo''] \<lparr> proj = emptyVersionProject, backup = Absent \<rparr> =
     (\<lparr> proj = emptyVersionProject, backup = manifest emptyVersionProject \<rparr>, Inr (Some 0))"
    using cleaned by (simp add: removeDependencies_def emptyVersionProject_def)
  show ?thesis
    using reported written by (simp add: emptyVersionProject_def)
qed

subsection \<open>The baseline of the ignore list\<close>

lemma loadFile_keeps: "\<exists>rest. ignoreList (fst (loadFile J L file st)) = ignoreList (fst st) @ rest"
  by (auto simp: loadFile_def Let_def split: fs_entry.splits option.splits)

lemma fold_loadFile_keeps:
  "\<exists>rest. ignoreList (fst (fold (loadFile J L) files st)) = ignoreList (fst st) @ rest"
proof (induction files arbitrary: st)
  case Nil
  then show ?case by simp
next
  case (Cons f fs)
  from loadFile_keeps [of J L f st] obtain r1 where
    1: "ignoreList (fst (loadFile J L f st)) = ignoreList (fst st) @ r1" by blast
  from Cons.IH [of "loadFile J L f st"] obtain r2 where
    "ignoreList (fst (fold (loadFile J L) fs (loadFile J L f st))) = ignoreList (fst (loadFile J L f st)) @ r2"
    by blast
  with 1 show ?case by simp
qed

lemma jsonStrings_append: "jsonStrings (xs @ ys) = jsonStrings xs @ jsonStrings ys"
  by (induction xs rule: jsonStrings.induct) simp_all

lemma set_new_Set_aux: "set (fold (\<lambda>x s. set_add s x) xs acc) = set acc \<union> set xs"
  by (induction xs arbitrary: acc) (auto simp: set_set_add)

lemma set_new_Set: "set (new_Set xs) = set xs"
  by (simp add: new_Set_def set_new_Set_aux)

text \<open>
  C10. Whatever \<^verbatim>\<open>JSON.parse\<close> does, whatever is found under the paths that are looked
  up, and whether or not an ignore file is named, the ignore list that \<open>loadConfig\<close>
  returns begins with \<^verbatim>\<open>@types/node\<close>, \<^verbatim>\<open>typescript\<close> and \<^verbatim>\<open>ts-node\<close>: what a file
  declares is appended to them. The three names are members of the ignore set of the
  analyzer that the scan command builds from the list.
\<close>

theorem baseline_ignores_kept:
  "(\<exists>rest. ignoreList (fst (loadConfig JSON_parse lookupPath file)) =
      [JString ''@types/node'', JString ''typescript'', JString ''ts-node''] @ rest) \<and>
   set_has (ignore (new_Analyzer
      \<lparr> checkDevDeps_opt = d,
        ignore_opt = Some (jsonStrings (ignoreList (fst (loadConfig JSON_parse lookupPath file)))),
        verbose_opt = None \<rparr>)) ''@types/node'' \<and>
   set_has (ignore (new_Analyzer
      \<lparr> checkDevDeps_opt = d,
        ignore_opt = Some (jsonStrings (ignoreList (fst (loadConfig JSON_parse lookupPath file)))),
        verbose_opt = None \<rparr>)) ''typescript'' \<and>
   set_has (ignore (new_Analyzer
      \<lparr> checkDevDeps_opt = d,
        ignore_opt = Some (jsonStrings (ignoreList (fst (loadConfig JSON_parse lookupPath file)))),
        verbose_opt = None \<rparr>)) ''ts-node''"
proof -
  obtain files where
    lc: "loadConfig JSON_parse lookupPath file =
           fold (loadFile JSON_parse lookupPath) files (\<lparr> ignoreList = defaultIgnore \<rparr>, [])"
    by (simp add: loadConfig_def Let_def)
  from fold_loadFile_keeps [of JSON_parse lookupPath files "(\<lparr> ignoreList = defaultIgnore \<rparr>, [])"]
  obtain rest where
    r: "ignoreList (fst (loadConfig JSON_parse lookupPath file)) =
          [JString ''@types/node'', JString ''typescript'', JString ''ts-node''] @ rest"
    unfolding lc by (auto simp: defaultIgnore_def)
  show ?thesis
    unfolding r by (simp add: new_Analyzer_def set_has_def set_new_Set)
qed

theorem baseline_ignores_kept_witness:
  "fst (loadConfig noJSON brokenConfig None) =
     \<lparr> ignoreList = [JString ''@types/node'', JString ''typescript'', JString ''ts-node'', JString ''lodash''] \<rparr> \<and>
   snd (loadConfig noJSON brokenConfig None) = [''.unusedrc.json''] \<and>
   fst (loadConfig noJSON noConfig (Some ''my.json'')) =
     \<lparr> ignoreList = [JString ''@types/node'', JString ''typescript'', JString ''ts-node''] \<rparr> \<and>
   (\<exists>rest. ignoreList (fst (loadConfig noJSON brokenConfig None)) =
      [JString ''@types/node'', JString ''typescript'', JString ''ts-node''] @ rest) \<and>
   set_has (ignore (new_Analyzer
      \<lparr> checkDevDeps_opt = None,
        ignore_opt = Some (jsonStrings (ignoreList (fst (loadConfig noJSON brokenConfig None)))),
        verbose_opt = None \<rparr>)) ''typescript''"
proof -
  have h1: "fst (loadConfig noJSON brokenConfig None) =
     \<lparr> ignoreList = [JString ''@types/node'', JString ''typescript'', JString ''ts-node'', JString ''lodash''] \<rparr>"
    by code_simp
  have h2: "snd (loadConfig noJSON brokenConfig None) = [''.unusedrc.json'']"
    by code_simp
  have h3: "fst (loadConfig noJSON noConfig (Some ''my.json'')) =
     \<lparr> ignoreList = [JString ''@types/node'', JString ''typescript'', JString ''ts-node''] \<rparr>"
    by code_simp
  from baseline_ignores_kept [of noJSON brokenConfig None None] h1 h2 h3
  show ?thesis by simp
qed

end
